theory Spec2Isabelle
  imports Complex_Main "HOL-Library.Multiset" "HOL-Library.AList"
begin

section \<open>JavaScript values used by the frontend helpers\<close>

text \<open>
  A JavaScript number is a double: not-a-number, an infinity, or a finite value, and every
  finite double is a rational. The time value of a \<open>Date\<close> object is either \<open>NaN\<close>
  (an invalid date, \<open>None\<close> below) or an integral number of milliseconds since the epoch.

  The values the helpers tell apart:
  \<^item> \<open>JDate\<close> is a \<open>Date\<close> object (with its time value) whose methods are the built-in ones;
  \<^item> \<open>JDateLike\<close> is an object that inherits from \<open>Date.prototype\<close> without being a
    \<open>Date\<close> object, such as \<open>Object.create(Date.prototype)\<close> or a \<open>Proxy\<close> of a \<open>Date\<close>:
    \<open>instanceof Date\<close> holds of it, and \<open>getTime\<close> throws a \<open>TypeError\<close> on it;
  \<^item> \<open>JRevokedProxy\<close> is a revoked \<open>Proxy\<close>: the prototype lookup that \<open>instanceof\<close>
    makes throws a \<open>TypeError\<close>;
  \<^item> \<open>JOther\<close> is any other value: a boolean, a symbol, a bigint, or an object or
    function that does not inherit from \<open>Date.prototype\<close>.

  Objects that run code of their own inside these helpers (a \<open>Date\<close> with own methods
  that shadow the built-in ones, a \<open>Proxy\<close> with traps) are not among the values modelled.
\<close>

datatype jsnum = NaN | PosInf | NegInf | Fin rat

datatype jsvalue =
    JNull
  | JUndefined
  | JString string
  | JNumber jsnum
  | JDate "int option"
  | JDateLike
  | JRevokedProxy
  | JOther

datatype js_error = TypeError

text \<open>
  The built-in \<open>Date\<close> is not part of the repository. What the helpers use of it is taken
  as a parameter: \<open>date_parse\<close> is the time value of \<open>new Date(s)\<close> for a string
  (\<open>None\<close> for \<open>NaN\<close>; the accepted formats are implementation-defined), and the five
  getters read the local-time fields of a valid time value.
\<close>

record date_env =
  date_parse :: "string \<Rightarrow> int option"
  getFullYear :: "int \<Rightarrow> int"
  getMonth :: "int \<Rightarrow> int"
  getDate :: "int \<Rightarrow> int"
  getHours :: "int \<Rightarrow> int"
  getMinutes :: "int \<Rightarrow> int"

text \<open>
  \<open>new Date(n)\<close> for a number applies \<open>TimeClip\<close>: a non-finite number or one beyond
  8.64e15 in magnitude gives an invalid date, any other is truncated towards zero.
\<close>

definition TimeClip :: "jsnum \<Rightarrow> int option" where
  "TimeClip n =
     (case n of
        Fin r \<Rightarrow>
          (if \<bar>r\<bar> > 8640000000000000 then None
           else Some (if r < 0 then \<lceil>r\<rceil> else \<lfloor>r\<rfloor>))
      | _ \<Rightarrow> None)"

subsection \<open>Number to string and \<open>padStart\<close>\<close>

definition digit_char :: "nat \<Rightarrow> char" where
  "digit_char d = ''0123456789'' ! (d mod 10)"

function nat_digits :: "nat \<Rightarrow> string" where
  "nat_digits n = (if n < 10 then [digit_char n] else nat_digits (n div 10) @ [digit_char (n mod 10)])"
  by pat_completeness auto
termination
  by (relation "measure id") auto

declare nat_digits.simps [simp del]

text \<open>\<open>Number.prototype.toString\<close> on an integral number below 1e21 in magnitude.\<close>

definition js_toString :: "int \<Rightarrow> string" where
  "js_toString i = (if i < 0 then CHR ''-'' # nat_digits (nat (- i)) else nat_digits (nat i))"

definition padStart :: "nat \<Rightarrow> char \<Rightarrow> string \<Rightarrow> string" where
  "padStart n c s = replicate (n - length s) c @ s"


section \<open>Date and time formatting (frontend/src/hooks/useInlineEdit.ts)\<close>

text \<open>
  A helper either returns (\<open>Inr\<close>) or throws (\<open>Inl\<close>). The source has no \<open>throw\<close> of its
  own; the two operations that can throw on the values above are \<open>instanceof Date\<close> and the
  method call \<open>date.getTime()\<close>.
\<close>

definition instanceof_Date :: "jsvalue \<Rightarrow> js_error + bool" where
  "instanceof_Date v =
     (case v of
        JDate d \<Rightarrow> Inr True
      | JDateLike \<Rightarrow> Inr True
      | JRevokedProxy \<Rightarrow> Inl TypeError
      | _ \<Rightarrow> Inr False)"

definition getTime :: "jsvalue \<Rightarrow> js_error + int option" where
  "getTime v = (case v of JDate d \<Rightarrow> Inr d | _ \<Rightarrow> Inl TypeError)"

text \<open>The placeholder is the em dash U+2014, here as its three UTF-8 bytes.\<close>

definition EMPTY_VALUE :: string where
  "EMPTY_VALUE = [char_of (226 :: nat), char_of (128 :: nat), char_of (148 :: nat)]"

definition padZero :: "int \<Rightarrow> string" where
  "padZero num = padStart 2 (CHR ''0'') (js_toString num)"

text \<open>\<open>isValidDate\<close>: \<open>date instanceof Date && !isNaN(date.getTime())\<close>.\<close>

definition isValidDate :: "jsvalue \<Rightarrow> js_error + bool" where
  "isValidDate date =
     (case instanceof_Date date of
        Inl e \<Rightarrow> Inl e
      | Inr False \<Rightarrow> Inr False
      | Inr True \<Rightarrow>
          (case getTime date of
             Inl e \<Rightarrow> Inl e
           | Inr t \<Rightarrow> Inr (t \<noteq> None)))"

text \<open>
  \<open>parseDate\<close> returns a valid \<open>Date\<close> or \<open>null\<close>. A \<open>Date\<close> it returns is given by its
  time value (\<open>time_value\<close>), \<open>null\<close> by \<open>None\<close>. The branches are in the order of the
  source; \<open>validated\<close> is \<open>isValidDate(date) ? date : null\<close>.
\<close>

definition time_value :: "jsvalue \<Rightarrow> int option" where
  "time_value v = (case v of JDate d \<Rightarrow> d | _ \<Rightarrow> None)"

definition validated :: "jsvalue \<Rightarrow> js_error + int option" where
  "validated date =
     (case isValidDate date of
        Inl e \<Rightarrow> Inl e
      | Inr ok \<Rightarrow> Inr (if ok then time_value date else None))"

definition parseDate :: "date_env \<Rightarrow> jsvalue \<Rightarrow> js_error + int option" where
  "parseDate env v =
     (if v = JNull \<or> v = JUndefined \<or> v = JString [] then Inr None
      else case instanceof_Date v of
        Inl e \<Rightarrow> Inl e
      | Inr True \<Rightarrow> validated v
      | Inr False \<Rightarrow>
          (case v of
             JString s \<Rightarrow> validated (JDate (date_parse env s))
           | JNumber n \<Rightarrow> validated (JDate (TimeClip n))
           | _ \<Rightarrow> Inr None))"

definition formatDate :: "date_env \<Rightarrow> jsvalue \<Rightarrow> js_error + string" where
  "formatDate env v =
     (case parseDate env v of
        Inl e \<Rightarrow> Inl e
      | Inr None \<Rightarrow> Inr EMPTY_VALUE
      | Inr (Some t) \<Rightarrow>
          (let month = padZero (getMonth env t + 1);
               day = padZero (getDate env t);
               year = getFullYear env t
           in Inr (month @ ''.'' @ day @ ''.'' @ js_toString year)))"



subsection \<open>Output shapes and a concrete host\<close>

text \<open>
  \<open>fields_in_range\<close> states the ranges the language standard fixes for the local-time
  getters. \<open>two_digits\<close> is a number written with exactly two decimal digits, and the two
  \<open>matches\<close> predicates are the documented formats read letter by letter.
\<close>

definition is_digit :: "char \<Rightarrow> bool" where
  "is_digit c = (c \<in> set ''0123456789'')"

definition matches_MM_DD_YYYY :: "string \<Rightarrow> bool" where
  "matches_MM_DD_YYYY s =
     (length s = 10 \<and> s ! 2 = CHR ''.'' \<and> s ! 5 = CHR ''.'' \<and>
      list_all (\<lambda>i. is_digit (s ! i)) [0, 1, 3, 4, 6, 7, 8, 9])"




text \<open>
  A host in the UTC time zone, for evaluating the helpers: the proleptic Gregorian calendar
  computed from the day number, and a parser that accepts two ISO strings.
\<close>

definition days_civil :: "int \<Rightarrow> int \<times> int \<times> int" where
  "days_civil days =
     (let z = days + 719468;
          era = z div 146097;
          doe = z mod 146097;
          yoe = (doe - doe div 1460 + doe div 36524 - doe div 146096) div 365;
          doy = doe - (365 * yoe + yoe div 4 - yoe div 100);
          mp = (5 * doy + 2) div 153;
          d = doy - (153 * mp + 2) div 5 + 1;
          m = (if mp < 10 then mp + 3 else mp - 9);
          y = yoe + era * 400 + (if m \<le> 2 then 1 else 0)
      in (y, m, d))"

definition utc_env :: date_env where
  "utc_env = \<lparr>
     date_parse = (\<lambda>s. if s = ''2021-03-05T10:30:00'' then Some 1614940200000
                      else if s = ''2021-11-26T14:35:22'' then Some 1637937322000
                      else None),
     getFullYear = (\<lambda>t. fst (days_civil (t div 86400000))),
     getMonth = (\<lambda>t. fst (snd (days_civil (t div 86400000))) - 1),
     getDate = (\<lambda>t. snd (snd (days_civil (t div 86400000)))),
     getHours = (\<lambda>t. (t div 3600000) mod 24),
     getMinutes = (\<lambda>t. (t div 60000) mod 60) \<rparr>"


subsection \<open>Properties of the formatting helpers\<close>






















subsection \<open>The contract of the formatting helpers\<close>




text \<open>
  The documentation of the source gives the date format as \<open>MM.DD.YYYY\<close>. The time value
  of 999-07-01T12:00:00Z is a valid date, and \<open>formatDate\<close> prints its year with three
  digits: the year is the one field that is not padded.
\<close>

lemma formatDate_year_999:
  "parseDate utc_env (JNumber (Fin (- 30626078400000))) = Inr (Some (- 30626078400000))
   \<and> formatDate utc_env (JNumber (Fin (- 30626078400000))) = Inr ''07.01.999''
   \<and> \<not> matches_MM_DD_YYYY ''07.01.999''"
proof (intro conjI)
  show "parseDate utc_env (JNumber (Fin (- 30626078400000))) = Inr (Some (- 30626078400000))"
    by code_simp
  show "formatDate utc_env (JNumber (Fin (- 30626078400000))) = Inr ''07.01.999''"
    by code_simp
  show "\<not> matches_MM_DD_YYYY ''07.01.999''"
    by code_simp
qed

section \<open>The offline transaction cache (hook \<open>useOfflineTransactions\<close>, version with sorting)\<close>

text \<open>
  The repository holds the hook in two copies. The one modelled here is the copy that
  defines \<open>sortTransactions\<close> and sorts in every update but the removal; the other
  copy, frontend/src/hooks/useOfflineTransactions.ts, never sorts, and the invariant
  below is not about it.
\<close>

subsection \<open>Transactions and field updates\<close>

text \<open>
  \<open>Transaction\<close> is the interface of the API client, field by field; a nullable field is an
  option, and \<open>is_p2p\<close> (declared optional) is \<open>None\<close> when the property is absent. The
  source's \<open>id\<close> is \<open>tx_id\<close> here. A \<open>transaction_date\<close> of \<open>None\<close> stands for a
  missing (\<open>null\<close> or \<open>undefined\<close>) date.

  The \<open>fields\<close> of an update are an object with arbitrary keys (\<open>Record<string, any>\<close>):
  a list of assignments, one per key, to a field of the interface or to a key outside it.
  Spreading it over a transaction applies the assignments in order.
\<close>

datatype transaction_type = DEBIT | CREDIT | CONVERSION | REVERSAL

datatype source_type = MANUAL | AUTO

record Transaction =
  tx_id :: int
  transaction_date :: "string option"
  amount :: string
  currency :: string
  card_last_4 :: "string option"
  operator_raw :: "string option"
  application_mapped :: "string option"
  transaction_type :: transaction_type
  balance_after :: "string option"
  source_type :: source_type
  parsing_method :: "string option"
  parsing_confidence :: "rat option"
  is_p2p :: "bool option"
  created_at :: string

datatype field_assignment =
    Set_id int
  | Set_transaction_date "string option"
  | Set_amount string
  | Set_currency string
  | Set_card_last_4 "string option"
  | Set_operator_raw "string option"
  | Set_application_mapped "string option"
  | Set_transaction_type transaction_type
  | Set_balance_after "string option"
  | Set_source_type source_type
  | Set_parsing_method "string option"
  | Set_parsing_confidence "rat option"
  | Set_is_p2p "bool option"
  | Set_created_at string
  | Set_other string

record field_update =
  u_id :: int
  u_fields :: "field_assignment list"

fun assign :: "field_assignment \<Rightarrow> Transaction \<Rightarrow> Transaction" where
  "assign (Set_id v) tx = tx\<lparr>tx_id := v\<rparr>"
| "assign (Set_transaction_date v) tx = tx\<lparr>transaction_date := v\<rparr>"
| "assign (Set_amount v) tx = tx\<lparr>amount := v\<rparr>"
| "assign (Set_currency v) tx = tx\<lparr>currency := v\<rparr>"
| "assign (Set_card_last_4 v) tx = tx\<lparr>card_last_4 := v\<rparr>"
| "assign (Set_operator_raw v) tx = tx\<lparr>operator_raw := v\<rparr>"
| "assign (Set_application_mapped v) tx = tx\<lparr>application_mapped := v\<rparr>"
| "assign (Set_transaction_type v) tx = tx\<lparr>transaction_type := v\<rparr>"
| "assign (Set_balance_after v) tx = tx\<lparr>balance_after := v\<rparr>"
| "assign (Set_source_type v) tx = tx\<lparr>source_type := v\<rparr>"
| "assign (Set_parsing_method v) tx = tx\<lparr>parsing_method := v\<rparr>"
| "assign (Set_parsing_confidence v) tx = tx\<lparr>parsing_confidence := v\<rparr>"
| "assign (Set_is_p2p v) tx = tx\<lparr>is_p2p := v\<rparr>"
| "assign (Set_created_at v) tx = tx\<lparr>created_at := v\<rparr>"
| "assign (Set_other k) tx = tx"

text \<open>
  \<open>{ ...tx, ...update.fields }\<close> is \<open>spread_fields\<close>. \<open>{ ...existing, ...tx }\<close> is
  \<open>spread_over\<close>: every property of \<open>tx\<close> overrides, and only an absent \<open>is_p2p\<close> lets
  the one of \<open>existing\<close> through; without an existing entry the left object is empty.
\<close>

definition spread_fields :: "Transaction \<Rightarrow> field_assignment list \<Rightarrow> Transaction" where
  "spread_fields tx fs = fold assign fs tx"

definition spread_over :: "Transaction option \<Rightarrow> Transaction \<Rightarrow> Transaction" where
  "spread_over existing tx =
     (case existing of
        None \<Rightarrow> tx
      | Some e \<Rightarrow> tx\<lparr>is_p2p := (case is_p2p tx of None \<Rightarrow> is_p2p e | Some b \<Rightarrow> Some b)\<rparr>)"

subsection \<open>Sorting\<close>

text \<open>
  The comparator of \<open>sortTransactions\<close>: a falsy \<open>transaction_date\<close> (missing or empty)
  counts as timestamp 0, any other string is read by \<open>new Date(s).getTime()\<close>, which is
  \<open>NaN\<close> (\<open>None\<close>) for a string the host does not parse; the difference of two
  timestamps is \<open>NaN\<close> as soon as one of them is.
\<close>

definition timestamp :: "date_env \<Rightarrow> Transaction \<Rightarrow> int option" where
  "timestamp env tx =
     (case transaction_date tx of
        None \<Rightarrow> Some 0
      | Some s \<Rightarrow> if s = [] then Some 0 else date_parse env s)"

definition compare_dates :: "date_env \<Rightarrow> Transaction \<Rightarrow> Transaction \<Rightarrow> int option" where
  "compare_dates env a b =
     (case (timestamp env a, timestamp env b) of
        (Some ta, Some tb) \<Rightarrow> Some (ta - tb)
      | _ \<Rightarrow> None)"

text \<open>
  \<open>Array.prototype.sort\<close> is a built-in of the host and is taken as a parameter, \<open>srt\<close>.
  The language standard fixes two things about it, which are the two predicates
  \<open>sort_permutes\<close> and \<open>sort_orders\<close> of the next subsection: whatever the comparator
  answers, the result is a permutation of the array; and where the comparator is a
  consistent order, as it is on transactions whose dates all parse, the result is the
  stable sort, which is unique. Where the comparator answers \<open>NaN\<close> for some pair, the
  order of the result is the implementation's, and nothing is assumed of it.

  \<open>js_sort\<close>, the stable insertion sort that reads a comparator result of \<open>NaN\<close> as zero,
  is one sort that conforms; the examples are evaluated with it.
\<close>

type_synonym array_sort =
  "(Transaction \<Rightarrow> Transaction \<Rightarrow> int option) \<Rightarrow> Transaction list \<Rightarrow> Transaction list"

fun js_insert :: "('a \<Rightarrow> 'a \<Rightarrow> int option) \<Rightarrow> 'a \<Rightarrow> 'a list \<Rightarrow> 'a list" where
  "js_insert cmp x [] = [x]"
| "js_insert cmp x (y # ys) =
     (if (case cmp x y of Some d \<Rightarrow> 0 < d | None \<Rightarrow> False) then y # js_insert cmp x ys
      else x # y # ys)"

definition js_sort :: "('a \<Rightarrow> 'a \<Rightarrow> int option) \<Rightarrow> 'a list \<Rightarrow> 'a list" where
  "js_sort cmp xs = foldr (js_insert cmp) xs []"

text \<open>\<open>sortTransactions\<close>: \<open>[...items].sort(compare)\<close>.\<close>

definition sortTransactions :: "array_sort \<Rightarrow> date_env \<Rightarrow> Transaction list \<Rightarrow> Transaction list" where
  "sortTransactions srt env items = srt (compare_dates env) items"

subsection \<open>The state updates\<close>

text \<open>
  The state is the list \<open>data\<close>, initially empty; each function below returns its next
  value. The loading flags, the progress record and the time of the last synchronisation
  are other state variables, and no update of \<open>data\<close> reads them. \<open>db_ok\<close> tells whether
  the awaited database call succeeds: when it rejects, \<open>setData\<close> is never reached and
  \<open>data\<close> keeps its value.

  \<open>loadTransactions\<close> reads the table (\<open>None\<close> when the read throws, and then the cache
  is emptied).
\<close>

definition loadTransactions ::
  "array_sort \<Rightarrow> date_env \<Rightarrow> Transaction list option \<Rightarrow> Transaction list" where
  "loadTransactions srt env db_items =
     (case db_items of
        Some items \<Rightarrow> sortTransactions srt env items
      | None \<Rightarrow> [])"

text \<open>
  \<open>syncFromServer\<close> fetches pages until one is empty or shorter than \<open>pageSize\<close>. The
  server is a function from the page number to the response; a failed request throws into
  the \<open>catch\<close> block, which leaves \<open>data\<close> alone. The loop need not end (a server may
  return full pages for ever), so it runs on fuel, and \<open>StillFetching\<close> is the loop that
  has not returned yet: no update has happened.
\<close>

datatype response = RequestFailed | Items "Transaction list"

datatype fetch_result = StillFetching | Threw | Fetched "Transaction list"

definition pageSize :: nat where
  "pageSize = 1000"

fun fetch_pages :: "nat \<Rightarrow> (nat \<Rightarrow> response) \<Rightarrow> nat \<Rightarrow> Transaction list \<Rightarrow> fetch_result" where
  "fetch_pages 0 server page fetched = StillFetching"
| "fetch_pages (Suc fuel) server page fetched =
     (case server page of
        RequestFailed \<Rightarrow> Threw
      | Items items \<Rightarrow>
          if items = [] then Fetched fetched
          else if length items < pageSize then Fetched (fetched @ items)
          else fetch_pages fuel server (page + 1) (fetched @ items))"

definition syncFromServer ::
  "array_sort \<Rightarrow> date_env \<Rightarrow> nat \<Rightarrow> (nat \<Rightarrow> response) \<Rightarrow> bool \<Rightarrow>
   Transaction list \<Rightarrow> Transaction list" where
  "syncFromServer srt env fuel server db_ok prev =
     (case fetch_pages fuel server 1 [] of
        Fetched fetched \<Rightarrow>
          (let sortedFetched = sortTransactions srt env fetched
           in if db_ok then sortedFetched else prev)
      | _ \<Rightarrow> prev)"

text \<open>
  \<open>upsertTransactions\<close> takes one transaction or an array. The \<open>Map\<close> keeps insertion
  order and replaces the value of a key that is present in place, which is
  \<open>AList.update\<close>; \<open>map_set\<close> is the body of the \<open>forEach\<close>.
\<close>

datatype upsert_arg = One Transaction | Many "Transaction list"

definition map_set :: "Transaction \<Rightarrow> (int \<times> Transaction) list \<Rightarrow> (int \<times> Transaction) list" where
  "map_set tx m = AList.update (tx_id tx) (spread_over (map_of m (tx_id tx)) tx) m"

definition upsertTransactions ::
  "array_sort \<Rightarrow> date_env \<Rightarrow> bool \<Rightarrow> upsert_arg \<Rightarrow> Transaction list \<Rightarrow>
   Transaction list" where
  "upsertTransactions srt env db_ok transactions prev =
     (let list = (case transactions of Many ts \<Rightarrow> ts | One t \<Rightarrow> [t])
      in if list = [] then prev
         else if \<not> db_ok then prev
         else
           (let map0 = fold (\<lambda>tx m. AList.update (tx_id tx) tx m) prev [];
                map1 = fold map_set list map0
            in sortTransactions srt env (map snd map1)))"

text \<open>\<open>apply_updates\<close> is the function mapped over the cache by \<open>updateTransactionFields\<close>.\<close>

definition apply_updates :: "field_update list \<Rightarrow> Transaction \<Rightarrow> Transaction" where
  "apply_updates updates tx =
     (case find (\<lambda>u. u_id u = tx_id tx) updates of
        Some update \<Rightarrow> spread_fields tx (u_fields update)
      | None \<Rightarrow> tx)"

definition updateTransactionFields ::
  "array_sort \<Rightarrow> date_env \<Rightarrow> bool \<Rightarrow> field_update list \<Rightarrow> Transaction list \<Rightarrow>
   Transaction list" where
  "updateTransactionFields srt env db_ok updates prev =
     (if updates = [] then prev
      else if \<not> db_ok then prev
      else sortTransactions srt env (map (apply_updates updates) prev))"

definition removeTransactions :: "bool \<Rightarrow> int list \<Rightarrow> Transaction list \<Rightarrow> Transaction list" where
  "removeTransactions db_ok ids prev =
     (if ids = [] then prev
      else if \<not> db_ok then prev
      else filter (\<lambda>tx. tx_id tx \<notin> set ids) prev)"

subsection \<open>The invariant\<close>

text \<open>
  Two cached entries are in order when the comparator says so; a comparison with \<open>NaN\<close>
  is false, as in the source language. The cache is sorted when every entry is in order
  with every later one.
\<close>

definition in_order :: "date_env \<Rightarrow> Transaction \<Rightarrow> Transaction \<Rightarrow> bool" where
  "in_order env a b = (case compare_dates env a b of Some d \<Rightarrow> d \<le> 0 | None \<Rightarrow> False)"

definition cache_sorted :: "date_env \<Rightarrow> Transaction list \<Rightarrow> bool" where
  "cache_sorted env xs = sorted_wrt (in_order env) xs"

definition one_entry_per_id :: "Transaction list \<Rightarrow> bool" where
  "one_entry_per_id xs = distinct (map tx_id xs)"

definition cache_inv :: "date_env \<Rightarrow> Transaction list \<Rightarrow> bool" where
  "cache_inv env xs = (one_entry_per_id xs \<and> cache_sorted env xs)"

definition dates_valid :: "date_env \<Rightarrow> Transaction list \<Rightarrow> bool" where
  "dates_valid env xs = list_all (\<lambda>tx. timestamp env tx \<noteq> None) xs"

definition time_key :: "date_env \<Rightarrow> Transaction \<Rightarrow> int" where
  "time_key env tx = (case timestamp env tx of Some t \<Rightarrow> t | None \<Rightarrow> 0)"

text \<open>
  What the standard fixes about the host's sort, for the comparator of \<open>sortTransactions\<close>:
  the result is a permutation of the argument; and on transactions whose dates all parse
  it is the stable sort by timestamp.
\<close>

definition sort_permutes :: "date_env \<Rightarrow> array_sort \<Rightarrow> bool" where
  "sort_permutes env srt = (\<forall>xs. mset (srt (compare_dates env) xs) = mset xs)"

definition sort_orders :: "date_env \<Rightarrow> array_sort \<Rightarrow> bool" where
  "sort_orders env srt =
     (\<forall>xs. dates_valid env xs \<longrightarrow> srt (compare_dates env) xs = sort_key (time_key env) xs)"

text \<open>
  What the incoming data must satisfy: a date is acceptable when it is missing, empty or
  parsed by the host; an update keeps the id when none of its assignments changes it; and
  the dates an update assigns are acceptable.
\<close>

definition date_ok :: "date_env \<Rightarrow> string option \<Rightarrow> bool" where
  "date_ok env d = (case d of None \<Rightarrow> True | Some s \<Rightarrow> s = [] \<or> date_parse env s \<noteq> None)"

definition update_keeps_id :: "field_update \<Rightarrow> bool" where
  "update_keeps_id u =
     list_all (\<lambda>a. case a of Set_id i \<Rightarrow> i = u_id u | _ \<Rightarrow> True) (u_fields u)"

definition update_dates_ok :: "date_env \<Rightarrow> field_update \<Rightarrow> bool" where
  "update_dates_ok env u =
     list_all (\<lambda>a. case a of Set_transaction_date d \<Rightarrow> date_ok env d | _ \<Rightarrow> True) (u_fields u)"

definition upsert_list :: "upsert_arg \<Rightarrow> Transaction list" where
  "upsert_list transactions = (case transactions of Many ts \<Rightarrow> ts | One t \<Rightarrow> [t])"

text \<open>
  For the claim that \<open>sortTransactions\<close> does not touch its argument, arrays live in a
  store (a list of arrays, a reference being an index). \<open>[...items]\<close> allocates a new array
  with the elements of \<open>items\<close>; \<open>sort\<close> sorts the array it is called on in place and
  returns the same reference.
\<close>

definition array_spread :: "'a list list \<Rightarrow> nat \<Rightarrow> 'a list list \<times> nat" where
  "array_spread heap r = (heap @ [heap ! r], length heap)"

definition sort_in_place ::
  "array_sort \<Rightarrow> (Transaction \<Rightarrow> Transaction \<Rightarrow> int option) \<Rightarrow> Transaction list list \<Rightarrow> nat \<Rightarrow>
   Transaction list list \<times> nat" where
  "sort_in_place srt cmp heap r = (heap[r := srt cmp (heap ! r)], r)"

definition sortTransactions_heap ::
  "array_sort \<Rightarrow> date_env \<Rightarrow> Transaction list list \<Rightarrow> nat \<Rightarrow> Transaction list list \<times> nat" where
  "sortTransactions_heap srt env heap items =
     (let (heap1, copy) = array_spread heap items
      in sort_in_place srt (compare_dates env) heap1 copy)"

text \<open>
  Entries of the \<open>Map\<close>: the keys are distinct, and every value is stored under its own id
  and has the property \<open>P\<close>.
\<close>

definition entries_ok :: "(Transaction \<Rightarrow> bool) \<Rightarrow> (int \<times> Transaction) list \<Rightarrow> bool" where
  "entries_ok P m = (distinct (map fst m) \<and> (\<forall>(k, v) \<in> set m. tx_id v = k \<and> P v))"

subsection \<open>Sample data\<close>

text \<open>
  \<open>shifting_server\<close> is a server at which a row was inserted between the two page requests:
  the last row of the first page comes again as the first row of the second.
\<close>

definition sample_tx :: "int \<Rightarrow> string option \<Rightarrow> Transaction" where
  "sample_tx i d =
     \<lparr>tx_id = i, transaction_date = d, amount = ''100.00'', currency = ''UZS'',
      card_last_4 = None, operator_raw = None, application_mapped = None,
      transaction_type = DEBIT, balance_after = None, source_type = AUTO,
      parsing_method = None, parsing_confidence = None, is_p2p = None,
      created_at = ''2021-03-05T10:30:00''\<rparr>"

definition first_page :: "Transaction list" where
  "first_page = map (\<lambda>i. sample_tx (int i) None) [1..<1001]"

definition shifting_server :: "nat \<Rightarrow> response" where
  "shifting_server page =
     (if page = 1 then Items first_page
      else if page = 2 then Items [sample_tx 1000 None]
      else Items [])"

definition small_server :: "nat \<Rightarrow> response" where
  "small_server page =
     (if page = 1 then Items [sample_tx 2 (Some ''2021-03-05T10:30:00''), sample_tx 1 None]
      else Items [])"

definition unparsed_tx :: Transaction where
  "unparsed_tx = sample_tx 3 (Some ''yesterday'')"

definition sample_cache :: "Transaction list" where
  "sample_cache = [sample_tx 1 None, sample_tx 2 (Some ''2021-03-05T10:30:00'')]"

definition sample_upsert :: upsert_arg where
  "sample_upsert =
     Many [sample_tx 3 (Some ''2021-03-05T10:30:00''), sample_tx 1 (Some ''2021-11-26T14:35:22'')]"

definition sample_updates :: "field_update list" where
  "sample_updates =
     [\<lparr>u_id = 1, u_fields = [Set_transaction_date (Some ''2021-11-26T14:35:22''), Set_amount ''5.00'']\<rparr>]"

subsection \<open>The host's sort\<close>

lemma mset_js_insert: "mset (js_insert cmp x ys) = add_mset x (mset ys)"
  by (induction ys) simp_all

lemma mset_js_sort: "mset (js_sort cmp xs) = mset xs"
  unfolding js_sort_def by (induction xs) (simp_all add: mset_js_insert)

lemma dates_valid_set: "dates_valid env xs = (\<forall>tx \<in> set xs. timestamp env tx \<noteq> None)"
  by (simp add: dates_valid_def list_all_iff)

lemma js_insert_insort_key:
  assumes "timestamp env x \<noteq> None" "\<forall>y \<in> set ys. timestamp env y \<noteq> None"
  shows "js_insert (compare_dates env) x ys = insort_key (time_key env) x ys"
  using assms
proof (induction ys)
  case Nil
  then show ?case by simp
next
  case (Cons y ys)
  from Cons.prems obtain s t where s: "timestamp env x = Some s" and t: "timestamp env y = Some t"
    by auto
  have "compare_dates env x y = Some (s - t)"
    by (simp add: compare_dates_def s t)
  moreover have "time_key env x = s" "time_key env y = t"
    by (simp_all add: time_key_def s t)
  ultimately show ?case using Cons by auto
qed

lemma js_sort_sort_key:
  assumes "dates_valid env xs"
  shows "js_sort (compare_dates env) xs = sort_key (time_key env) xs"
  using assms unfolding js_sort_def sort_key_def
proof (induction xs)
  case Nil
  then show ?case by simp
next
  case (Cons x xs)
  then have v: "timestamp env x \<noteq> None" and vs: "dates_valid env xs"
    by (simp_all add: dates_valid_def)
  have "\<forall>y \<in> set (foldr (insort_key (time_key env)) xs []). timestamp env y \<noteq> None"
    using vs by (simp add: dates_valid_set flip: sort_key_def)
  with v Cons.IH [OF vs] show ?case by (simp add: js_insert_insort_key)
qed

lemma js_sort_permutes: "sort_permutes env js_sort"
  by (simp add: sort_permutes_def mset_js_sort)

lemma js_sort_orders: "sort_orders env js_sort"
  by (simp add: sort_orders_def js_sort_sort_key)

subsection \<open>Sorting keeps the entries and orders them\<close>

lemma mset_sortTransactions:
  assumes "sort_permutes env srt"
  shows "mset (sortTransactions srt env xs) = mset xs"
  using assms by (simp add: sort_permutes_def sortTransactions_def)

lemma one_entry_per_id_sortTransactions:
  assumes "sort_permutes env srt"
  shows "one_entry_per_id (sortTransactions srt env xs) = one_entry_per_id xs"
proof -
  have "mset (map tx_id (sortTransactions srt env xs)) = mset (map tx_id xs)"
    using mset_sortTransactions [OF assms] by simp
  then show ?thesis
    unfolding one_entry_per_id_def by (rule mset_eq_imp_distinct_iff)
qed

lemma in_order_valid:
  assumes "timestamp env a = Some s" "timestamp env b = Some t"
  shows "in_order env a b = (s \<le> t)"
  using assms by (simp add: in_order_def compare_dates_def)

lemma cache_sorted_sorted_keys:
  assumes "dates_valid env xs"
  shows "cache_sorted env xs = sorted (map (time_key env) xs)"
proof -
  have eq: "in_order env a b = (time_key env a \<le> time_key env b)"
    if "a \<in> set xs" "b \<in> set xs" for a b
  proof -
    from that assms have "timestamp env a \<noteq> None" "timestamp env b \<noteq> None"
      unfolding dates_valid_set by blast+
    then obtain s t where "timestamp env a = Some s" "timestamp env b = Some t"
      by auto
    then show ?thesis by (simp add: in_order_valid time_key_def)
  qed
  have "sorted_wrt (in_order env) xs = sorted_wrt (\<lambda>a b. time_key env a \<le> time_key env b) xs"
  proof
    assume "sorted_wrt (in_order env) xs"
    then show "sorted_wrt (\<lambda>a b. time_key env a \<le> time_key env b) xs"
      by (rule sorted_wrt_mono_rel [rotated]) (simp add: eq)
  next
    assume "sorted_wrt (\<lambda>a b. time_key env a \<le> time_key env b) xs"
    then show "sorted_wrt (in_order env) xs"
      by (rule sorted_wrt_mono_rel [rotated]) (simp add: eq)
  qed
  then show ?thesis by (simp add: cache_sorted_def sorted_map)
qed

lemma sortTransactions_ordered:
  assumes "sort_orders env srt" "dates_valid env xs"
  shows "cache_sorted env (sortTransactions srt env xs)"
    and "dates_valid env (sortTransactions srt env xs)"
proof -
  have eq: "sortTransactions srt env xs = sort_key (time_key env) xs"
    using assms by (simp add: sort_orders_def sortTransactions_def)
  show valid: "dates_valid env (sortTransactions srt env xs)"
    unfolding eq using assms(2) by (simp add: dates_valid_set)
  have "sorted (map (time_key env) (sort_key (time_key env) xs))"
    by (rule sorted_sort_key)
  then show "cache_sorted env (sortTransactions srt env xs)"
    using valid unfolding eq by (simp add: cache_sorted_sorted_keys)
qed

subsection \<open>Each update keeps the ids distinct\<close>

lemma timestamp_date_ok: "(timestamp env tx \<noteq> None) = date_ok env (transaction_date tx)"
  by (simp add: timestamp_def date_ok_def split: option.splits)

lemma cache_inv_Nil: "cache_inv env []"
  by (simp add: cache_inv_def one_entry_per_id_def cache_sorted_def)

lemma one_entry_per_id_removeTransactions:
  "one_entry_per_id prev \<Longrightarrow> one_entry_per_id (removeTransactions db_ok ids prev)"
  by (simp add: removeTransactions_def one_entry_per_id_def distinct_map_filter)

lemma cache_sorted_removeTransactions:
  "cache_sorted env prev \<Longrightarrow> cache_sorted env (removeTransactions db_ok ids prev)"
  by (simp add: removeTransactions_def cache_sorted_def sorted_wrt_filter)

lemma dates_valid_removeTransactions:
  "dates_valid env prev \<Longrightarrow> dates_valid env (removeTransactions db_ok ids prev)"
  by (simp add: removeTransactions_def dates_valid_set)

lemma set_AList_update: "set (AList.update k v m) \<subseteq> insert (k, v) (set m)"
  by (induction m) auto

lemma entries_ok_update:
  assumes "entries_ok P m" "tx_id v = k" "P v"
  shows "entries_ok P (AList.update k v m)"
proof -
  have "distinct (map fst (AList.update k v m))"
    using assms(1) by (simp add: entries_ok_def distinct_update)
  moreover have "tx_id v' = k' \<and> P v'" if "(k', v') \<in> set (AList.update k v m)" for k' v'
  proof -
    from that set_AList_update [of k v m] have "(k', v') = (k, v) \<or> (k', v') \<in> set m" by auto
    then show ?thesis using assms by (auto simp: entries_ok_def)
  qed
  ultimately show ?thesis by (auto simp: entries_ok_def)
qed

lemma entries_ok_Map_of_list:
  assumes "\<forall>tx \<in> set prev. P tx" "entries_ok P m"
  shows "entries_ok P (fold (\<lambda>tx m. AList.update (tx_id tx) tx m) prev m)"
  using assms
proof (induction prev arbitrary: m)
  case Nil
  then show ?case by simp
next
  case (Cons tx prev)
  then show ?case by (simp add: entries_ok_update)
qed

lemma spread_over_id: "tx_id (spread_over e tx) = tx_id tx"
  by (simp add: spread_over_def split: option.splits)

lemma spread_over_timestamp: "timestamp env (spread_over e tx) = timestamp env tx"
  by (simp add: spread_over_def timestamp_def split: option.splits)

lemma entries_ok_fold_map_set:
  assumes "\<forall>tx \<in> set list. \<forall>e. P (spread_over e tx)" "entries_ok P m"
  shows "entries_ok P (fold map_set list m)"
  using assms
proof (induction list arbitrary: m)
  case Nil
  then show ?case by simp
next
  case (Cons tx list)
  have "entries_ok P (map_set tx m)"
    unfolding map_set_def using Cons.prems
    by (intro entries_ok_update) (simp_all add: spread_over_id)
  with Cons show ?case by simp
qed

lemma entries_ok_values:
  assumes "entries_ok P m"
  shows "one_entry_per_id (map snd m)" "\<forall>tx \<in> set (map snd m). P tx"
proof -
  have eq: "map tx_id (map snd m) = map fst m"
    using assms by (auto simp: entries_ok_def)
  show "one_entry_per_id (map snd m)"
    unfolding one_entry_per_id_def eq using assms by (simp add: entries_ok_def)
  show "\<forall>tx \<in> set (map snd m). P tx"
    using assms by (auto simp: entries_ok_def)
qed

lemma upsertTransactions_unfold:
  "upsertTransactions srt env db_ok transactions prev =
    (if upsert_list transactions = [] \<or> \<not> db_ok then prev
     else sortTransactions srt env
       (map snd (fold map_set (upsert_list transactions)
          (fold (\<lambda>tx m. AList.update (tx_id tx) tx m) prev []))))"
  by (simp add: upsertTransactions_def upsert_list_def Let_def)

lemma upsert_entries_ok:
  assumes "\<forall>tx \<in> set prev. P tx" "\<forall>tx \<in> set list. \<forall>e. P (spread_over e tx)"
  shows "entries_ok P (fold map_set list (fold (\<lambda>tx m. AList.update (tx_id tx) tx m) prev []))"
proof -
  have "entries_ok P []" by (simp add: entries_ok_def)
  with assms(1) have "entries_ok P (fold (\<lambda>tx m. AList.update (tx_id tx) tx m) prev [])"
    by (rule entries_ok_Map_of_list)
  with assms(2) show ?thesis by (rule entries_ok_fold_map_set)
qed

lemma upsertTransactions_ids:
  assumes "sort_permutes env srt" "one_entry_per_id prev"
  shows "one_entry_per_id (upsertTransactions srt env db_ok transactions prev)"
proof -
  have "entries_ok (\<lambda>tx. True)
    (fold map_set (upsert_list transactions) (fold (\<lambda>tx m. AList.update (tx_id tx) tx m) prev []))"
    by (rule upsert_entries_ok) simp_all
  from entries_ok_values(1) [OF this] show ?thesis
    unfolding upsertTransactions_unfold
    using assms by (simp add: one_entry_per_id_sortTransactions)
qed

lemma upsertTransactions_ordered:
  assumes "sort_orders env srt" "cache_sorted env prev" "dates_valid env prev"
    "dates_valid env (upsert_list transactions)"
  shows "cache_sorted env (upsertTransactions srt env db_ok transactions prev)"
    and "dates_valid env (upsertTransactions srt env db_ok transactions prev)"
proof -
  let ?m = "fold map_set (upsert_list transactions)
    (fold (\<lambda>tx m. AList.update (tx_id tx) tx m) prev [])"
  have "entries_ok (\<lambda>tx. timestamp env tx \<noteq> None) ?m"
    using assms(3,4) by (intro upsert_entries_ok) (simp_all add: dates_valid_set spread_over_timestamp)
  from entries_ok_values(2) [OF this] have v: "dates_valid env (map snd ?m)"
    unfolding dates_valid_set .
  show "cache_sorted env (upsertTransactions srt env db_ok transactions prev)"
    unfolding upsertTransactions_unfold
    using sortTransactions_ordered(1) [OF assms(1) v] assms(2) by simp
  show "dates_valid env (upsertTransactions srt env db_ok transactions prev)"
    unfolding upsertTransactions_unfold
    using sortTransactions_ordered(2) [OF assms(1) v] assms(3) by simp
qed

lemma spread_fields_id:
  assumes "list_all (\<lambda>a. case a of Set_id i \<Rightarrow> i = k | _ \<Rightarrow> True) fs" "tx_id tx = k"
  shows "tx_id (spread_fields tx fs) = k"
  using assms unfolding spread_fields_def
proof (induction fs arbitrary: tx)
  case Nil
  then show ?case by simp
next
  case (Cons a fs)
  then have "tx_id (assign a tx) = k" by (cases a) simp_all
  with Cons show ?case by simp
qed

lemma spread_fields_date_ok:
  assumes "list_all (\<lambda>a. case a of Set_transaction_date d \<Rightarrow> date_ok env d | _ \<Rightarrow> True) fs"
    "date_ok env (transaction_date tx)"
  shows "date_ok env (transaction_date (spread_fields tx fs))"
  using assms unfolding spread_fields_def
proof (induction fs arbitrary: tx)
  case Nil
  then show ?case by simp
next
  case (Cons a fs)
  then have "date_ok env (transaction_date (assign a tx))" by (cases a) simp_all
  with Cons show ?case by simp
qed

lemma apply_updates_id:
  assumes "list_all update_keeps_id updates"
  shows "tx_id (apply_updates updates tx) = tx_id tx"
proof (cases "find (\<lambda>u. u_id u = tx_id tx) updates")
  case None
  then show ?thesis by (simp add: apply_updates_def)
next
  case (Some u)
  then have "u_id u = tx_id tx" "u \<in> set updates"
    by (auto simp: find_Some_iff)
  with assms have "update_keeps_id u" by (simp add: list_all_iff)
  then have "list_all (\<lambda>a. case a of Set_id i \<Rightarrow> i = tx_id tx | _ \<Rightarrow> True) (u_fields u)"
    unfolding update_keeps_id_def \<open>u_id u = tx_id tx\<close> .
  then have "tx_id (spread_fields tx (u_fields u)) = tx_id tx"
    by (rule spread_fields_id) simp
  then show ?thesis using Some by (simp add: apply_updates_def)
qed

lemma apply_updates_date_ok:
  assumes "list_all (update_dates_ok env) updates" "timestamp env tx \<noteq> None"
  shows "timestamp env (apply_updates updates tx) \<noteq> None"
proof (cases "find (\<lambda>u. u_id u = tx_id tx) updates")
  case None
  then show ?thesis using assms(2) by (simp add: apply_updates_def)
next
  case (Some u)
  then have "u \<in> set updates" by (auto simp: find_Some_iff)
  with assms(1) have "update_dates_ok env u" by (simp add: list_all_iff)
  then have "date_ok env (transaction_date (spread_fields tx (u_fields u)))"
    using assms(2) unfolding update_dates_ok_def timestamp_date_ok by (rule spread_fields_date_ok)
  then have "timestamp env (spread_fields tx (u_fields u)) \<noteq> None"
    unfolding timestamp_date_ok .
  then show ?thesis using Some by (simp add: apply_updates_def)
qed

lemma updateTransactionFields_unfold:
  "updateTransactionFields srt env db_ok updates prev =
    (if updates = [] \<or> \<not> db_ok then prev
     else sortTransactions srt env (map (apply_updates updates) prev))"
  by (simp add: updateTransactionFields_def)

lemma updateTransactionFields_ids:
  assumes "sort_permutes env srt" "one_entry_per_id prev" "list_all update_keeps_id updates"
  shows "one_entry_per_id (updateTransactionFields srt env db_ok updates prev)"
proof -
  have eq: "map tx_id (map (apply_updates updates) prev) = map tx_id prev"
    using assms(3) by (simp add: apply_updates_id)
  have "one_entry_per_id (map (apply_updates updates) prev)"
    unfolding one_entry_per_id_def eq using assms(2) by (simp add: one_entry_per_id_def)
  then show ?thesis
    unfolding updateTransactionFields_unfold
    using assms(1,2) by (simp add: one_entry_per_id_sortTransactions)
qed

lemma updateTransactionFields_ordered:
  assumes "sort_orders env srt" "cache_sorted env prev" "dates_valid env prev"
    "list_all (update_dates_ok env) updates"
  shows "cache_sorted env (updateTransactionFields srt env db_ok updates prev)"
    and "dates_valid env (updateTransactionFields srt env db_ok updates prev)"
proof -
  have "timestamp env (apply_updates updates tx) \<noteq> None" if "tx \<in> set prev" for tx
    using that assms(3) apply_updates_date_ok [OF assms(4)] unfolding dates_valid_set by blast
  then have v: "dates_valid env (map (apply_updates updates) prev)"
    by (auto simp: dates_valid_set)
  show "cache_sorted env (updateTransactionFields srt env db_ok updates prev)"
    unfolding updateTransactionFields_unfold
    using sortTransactions_ordered(1) [OF assms(1) v] assms(2) by simp
  show "dates_valid env (updateTransactionFields srt env db_ok updates prev)"
    unfolding updateTransactionFields_unfold
    using sortTransactions_ordered(2) [OF assms(1) v] assms(3) by simp
qed

lemma loadTransactions_ids:
  assumes "sort_permutes env srt"
    "case db_items of Some stored \<Rightarrow> one_entry_per_id stored | None \<Rightarrow> True"
  shows "one_entry_per_id (loadTransactions srt env db_items)"
proof (cases db_items)
  case None
  then show ?thesis by (simp add: loadTransactions_def one_entry_per_id_def)
next
  case (Some stored)
  with assms(2) have "one_entry_per_id stored" by simp
  then have "one_entry_per_id (sortTransactions srt env stored)"
    by (simp only: one_entry_per_id_sortTransactions [OF assms(1)])
  then show ?thesis using Some by (simp add: loadTransactions_def)
qed

lemma loadTransactions_ordered:
  assumes "sort_orders env srt"
    "case db_items of Some stored \<Rightarrow> dates_valid env stored | None \<Rightarrow> True"
  shows "cache_sorted env (loadTransactions srt env db_items)"
    and "dates_valid env (loadTransactions srt env db_items)"
proof -
  show "cache_sorted env (loadTransactions srt env db_items)"
  proof (cases db_items)
    case None
    then show ?thesis by (simp add: loadTransactions_def cache_sorted_def)
  next
    case (Some stored)
    with assms(2) have "dates_valid env stored" by simp
    from sortTransactions_ordered(1) [OF assms(1) this] show ?thesis
      using Some by (simp add: loadTransactions_def)
  qed
  show "dates_valid env (loadTransactions srt env db_items)"
  proof (cases db_items)
    case None
    then show ?thesis by (simp add: loadTransactions_def dates_valid_def)
  next
    case (Some stored)
    with assms(2) have "dates_valid env stored" by simp
    from sortTransactions_ordered(2) [OF assms(1) this] show ?thesis
      using Some by (simp add: loadTransactions_def)
  qed
qed

lemma syncFromServer_unfold:
  "syncFromServer srt env fuel server db_ok prev =
    (case fetch_pages fuel server 1 [] of
       Fetched fetched \<Rightarrow> if db_ok then sortTransactions srt env fetched else prev
     | _ \<Rightarrow> prev)"
  by (simp add: syncFromServer_def Let_def split: fetch_result.splits)

lemma syncFromServer_ids:
  assumes "sort_permutes env srt" "one_entry_per_id prev"
    "case fetch_pages fuel server 1 [] of Fetched fetched \<Rightarrow> one_entry_per_id fetched | _ \<Rightarrow> True"
  shows "one_entry_per_id (syncFromServer srt env fuel server db_ok prev)"
proof (cases "fetch_pages fuel server 1 []")
  case (Fetched fetched)
  with assms(3) have "one_entry_per_id fetched" by simp
  then have "one_entry_per_id (sortTransactions srt env fetched)"
    by (simp only: one_entry_per_id_sortTransactions [OF assms(1)])
  then show ?thesis
    unfolding syncFromServer_unfold using Fetched assms(2) by simp
qed (use assms(2) in \<open>simp_all add: syncFromServer_unfold\<close>)

lemma syncFromServer_ordered:
  assumes "sort_orders env srt" "cache_sorted env prev" "dates_valid env prev"
    "case fetch_pages fuel server 1 [] of Fetched fetched \<Rightarrow> dates_valid env fetched | _ \<Rightarrow> True"
  shows "cache_sorted env (syncFromServer srt env fuel server db_ok prev)"
    and "dates_valid env (syncFromServer srt env fuel server db_ok prev)"
proof -
  show "cache_sorted env (syncFromServer srt env fuel server db_ok prev)"
  proof (cases "fetch_pages fuel server 1 []")
    case (Fetched fetched)
    with assms(4) have "dates_valid env fetched" by simp
    from sortTransactions_ordered(1) [OF assms(1) this] show ?thesis
      unfolding syncFromServer_unfold using Fetched assms(2) by simp
  qed (use assms(2) in \<open>simp_all add: syncFromServer_unfold\<close>)
  show "dates_valid env (syncFromServer srt env fuel server db_ok prev)"
  proof (cases "fetch_pages fuel server 1 []")
    case (Fetched fetched)
    with assms(4) have "dates_valid env fetched" by simp
    from sortTransactions_ordered(2) [OF assms(1) this] show ?thesis
      unfolding syncFromServer_unfold using Fetched assms(3) by simp
  qed (use assms(3) in \<open>simp_all add: syncFromServer_unfold\<close>)
qed

lemma sortTransactions_heap_fresh:
  assumes "items < length heap"
  shows "snd (sortTransactions_heap srt env heap items) = length heap"
    and "fst (sortTransactions_heap srt env heap items) ! length heap =
      sortTransactions srt env (heap ! items)"
    and "\<forall>r < length heap. fst (sortTransactions_heap srt env heap items) ! r = heap ! r"
  using assms
  by (simp_all add: sortTransactions_heap_def array_spread_def sort_in_place_def sortTransactions_def
      nth_append)

lemma length_first_page: "length first_page = 1000"
  by (simp add: first_page_def)

lemma fetch_pages_shifting_server:
  "fetch_pages 2 shifting_server 1 [] = Fetched (first_page @ [sample_tx 1000 None])"
proof -
  have "first_page \<noteq> []" using length_first_page by auto
  then show ?thesis
    by (simp add: numeral_2_eq_2 shifting_server_def pageSize_def length_first_page)
qed

lemma first_page_repeats_id: "\<not> one_entry_per_id (first_page @ [sample_tx 1000 None])"
proof -
  have "sample_tx (int 1000) None \<in> set first_page"
    unfolding first_page_def set_map by (rule imageI) simp
  then have "tx_id (sample_tx 1000 None) \<in> tx_id ` set first_page"
    by (intro imageI) simp
  then show ?thesis by (simp add: one_entry_per_id_def)
qed

subsection \<open>The invariant of the cache\<close>

text \<open>
  Claim C10 (offline cache invariant), as amended. The empty initial cache is sorted and
  has one entry per id. \<^emph>\<open>One entry per id\<close> is kept by every update whatever the dates
  are, on any host whose sort returns a permutation: by \<open>removeTransactions\<close> and
  \<open>upsertTransactions\<close> always, by \<open>updateTransactionFields\<close> when no update assigns
  another id, by \<open>loadTransactions\<close> for the rows of the table, which its primary key
  \<open>id\<close> keeps distinct, and by \<open>syncFromServer\<close> when the pages fetched repeat no id.
  \<^emph>\<open>Sorted ascending by date\<close>, a missing date counting as timestamp 0 (\<open>timestamp\<close>), is
  kept by \<open>removeTransactions\<close> always and by the other updates when the dates in the
  cache and in the incoming data all parse. \<open>sortTransactions\<close> returns a new array
  holding the sorted entries and leaves every array of the store, its argument included,
  as it was. For dates that parse, being sorted is the timestamps being in ascending
  order.
\<close>

theorem offline_cache_invariant:
  "cache_inv env []
   \<and> (one_entry_per_id prev \<longrightarrow> one_entry_per_id (removeTransactions db_ok ids prev))
   \<and> (cache_sorted env prev \<longrightarrow> cache_sorted env (removeTransactions db_ok ids prev))
   \<and> (dates_valid env prev \<longrightarrow> dates_valid env (removeTransactions db_ok ids prev))
   \<and> (sort_permutes env srt \<longrightarrow>
        (one_entry_per_id prev \<longrightarrow>
           one_entry_per_id (upsertTransactions srt env db_ok transactions prev))
      \<and> (one_entry_per_id prev \<and> list_all update_keeps_id updates \<longrightarrow>
           one_entry_per_id (updateTransactionFields srt env db_ok updates prev))
      \<and> ((case db_items of Some stored \<Rightarrow> one_entry_per_id stored | None \<Rightarrow> True) \<longrightarrow>
           one_entry_per_id (loadTransactions srt env db_items))
      \<and> (one_entry_per_id prev \<and>
          (case fetch_pages fuel server 1 [] of
             Fetched fetched \<Rightarrow> one_entry_per_id fetched
           | _ \<Rightarrow> True) \<longrightarrow>
           one_entry_per_id (syncFromServer srt env fuel server db_ok prev)))
   \<and> (sort_orders env srt \<longrightarrow>
        (cache_sorted env prev \<and> dates_valid env prev \<and>
         dates_valid env (upsert_list transactions) \<longrightarrow>
           cache_sorted env (upsertTransactions srt env db_ok transactions prev) \<and>
           dates_valid env (upsertTransactions srt env db_ok transactions prev))
      \<and> (cache_sorted env prev \<and> dates_valid env prev \<and>
          list_all (update_dates_ok env) updates \<longrightarrow>
           cache_sorted env (updateTransactionFields srt env db_ok updates prev) \<and>
           dates_valid env (updateTransactionFields srt env db_ok updates prev))
      \<and> ((case db_items of Some stored \<Rightarrow> dates_valid env stored | None \<Rightarrow> True) \<longrightarrow>
           cache_sorted env (loadTransactions srt env db_items) \<and>
           dates_valid env (loadTransactions srt env db_items))
      \<and> (cache_sorted env prev \<and> dates_valid env prev \<and>
          (case fetch_pages fuel server 1 [] of
             Fetched fetched \<Rightarrow> dates_valid env fetched
           | _ \<Rightarrow> True) \<longrightarrow>
           cache_sorted env (syncFromServer srt env fuel server db_ok prev) \<and>
           dates_valid env (syncFromServer srt env fuel server db_ok prev)))
   \<and> (items < length heap \<longrightarrow>
        snd (sortTransactions_heap srt env heap items) = length heap \<and>
        fst (sortTransactions_heap srt env heap items) ! length heap =
          sortTransactions srt env (heap ! items) \<and>
        (\<forall>r < length heap. fst (sortTransactions_heap srt env heap items) ! r = heap ! r))
   \<and> (dates_valid env xs \<longrightarrow> cache_sorted env xs = sorted (map (time_key env) xs))"
proof -
  have removal: "one_entry_per_id prev \<longrightarrow> one_entry_per_id (removeTransactions db_ok ids prev)"
    "cache_sorted env prev \<longrightarrow> cache_sorted env (removeTransactions db_ok ids prev)"
    "dates_valid env prev \<longrightarrow> dates_valid env (removeTransactions db_ok ids prev)"
    by (simp_all add: one_entry_per_id_removeTransactions cache_sorted_removeTransactions
        dates_valid_removeTransactions)
  have ids: "(one_entry_per_id prev \<longrightarrow>
           one_entry_per_id (upsertTransactions srt env db_ok transactions prev))
      \<and> (one_entry_per_id prev \<and> list_all update_keeps_id updates \<longrightarrow>
           one_entry_per_id (updateTransactionFields srt env db_ok updates prev))
      \<and> ((case db_items of Some stored \<Rightarrow> one_entry_per_id stored | None \<Rightarrow> True) \<longrightarrow>
           one_entry_per_id (loadTransactions srt env db_items))
      \<and> (one_entry_per_id prev \<and>
          (case fetch_pages fuel server 1 [] of
             Fetched fetched \<Rightarrow> one_entry_per_id fetched
           | _ \<Rightarrow> True) \<longrightarrow>
           one_entry_per_id (syncFromServer srt env fuel server db_ok prev))"
    if p: "sort_permutes env srt"
  proof (intro conjI impI)
    assume "one_entry_per_id prev"
    with p show "one_entry_per_id (upsertTransactions srt env db_ok transactions prev)"
      by (rule upsertTransactions_ids)
  next
    assume "one_entry_per_id prev \<and> list_all update_keeps_id updates"
    then show "one_entry_per_id (updateTransactionFields srt env db_ok updates prev)"
      using p by (intro updateTransactionFields_ids) simp_all
  next
    assume "case db_items of Some stored \<Rightarrow> one_entry_per_id stored | None \<Rightarrow> True"
    with p show "one_entry_per_id (loadTransactions srt env db_items)"
      by (rule loadTransactions_ids)
  next
    assume a: "one_entry_per_id prev \<and>
      (case fetch_pages fuel server 1 [] of
         Fetched fetched \<Rightarrow> one_entry_per_id fetched
       | _ \<Rightarrow> True)"
    then have "one_entry_per_id prev" by simp
    with p show "one_entry_per_id (syncFromServer srt env fuel server db_ok prev)"
      using a by (intro syncFromServer_ids) simp_all
  qed
  have order: "(cache_sorted env prev \<and> dates_valid env prev \<and>
         dates_valid env (upsert_list transactions) \<longrightarrow>
           cache_sorted env (upsertTransactions srt env db_ok transactions prev) \<and>
           dates_valid env (upsertTransactions srt env db_ok transactions prev))
      \<and> (cache_sorted env prev \<and> dates_valid env prev \<and>
          list_all (update_dates_ok env) updates \<longrightarrow>
           cache_sorted env (updateTransactionFields srt env db_ok updates prev) \<and>
           dates_valid env (updateTransactionFields srt env db_ok updates prev))
      \<and> ((case db_items of Some stored \<Rightarrow> dates_valid env stored | None \<Rightarrow> True) \<longrightarrow>
           cache_sorted env (loadTransactions srt env db_items) \<and>
           dates_valid env (loadTransactions srt env db_items))
      \<and> (cache_sorted env prev \<and> dates_valid env prev \<and>
          (case fetch_pages fuel server 1 [] of
             Fetched fetched \<Rightarrow> dates_valid env fetched
           | _ \<Rightarrow> True) \<longrightarrow>
           cache_sorted env (syncFromServer srt env fuel server db_ok prev) \<and>
           dates_valid env (syncFromServer srt env fuel server db_ok prev))"
    if o: "sort_orders env srt"
  proof (intro conjI impI)
    assume a: "cache_sorted env prev \<and> dates_valid env prev \<and>
      dates_valid env (upsert_list transactions)"
    then show "cache_sorted env (upsertTransactions srt env db_ok transactions prev)"
      using o by (intro upsertTransactions_ordered) simp_all
    from a show "dates_valid env (upsertTransactions srt env db_ok transactions prev)"
      using o by (intro upsertTransactions_ordered(2) [where srt = srt]) simp_all
  next
    assume a: "cache_sorted env prev \<and> dates_valid env prev \<and>
      list_all (update_dates_ok env) updates"
    then show "cache_sorted env (updateTransactionFields srt env db_ok updates prev)"
      using o by (intro updateTransactionFields_ordered) simp_all
    from a show "dates_valid env (updateTransactionFields srt env db_ok updates prev)"
      using o by (intro updateTransactionFields_ordered(2) [where srt = srt]) simp_all
  next
    assume a: "case db_items of Some stored \<Rightarrow> dates_valid env stored | None \<Rightarrow> True"
    with o show "cache_sorted env (loadTransactions srt env db_items)"
      by (rule loadTransactions_ordered)
    from o a show "dates_valid env (loadTransactions srt env db_items)"
      by (rule loadTransactions_ordered)
  next
    assume a: "cache_sorted env prev \<and> dates_valid env prev \<and>
      (case fetch_pages fuel server 1 [] of
         Fetched fetched \<Rightarrow> dates_valid env fetched
       | _ \<Rightarrow> True)"
    then show "cache_sorted env (syncFromServer srt env fuel server db_ok prev)"
      using o by (intro syncFromServer_ordered) simp_all
    from a show "dates_valid env (syncFromServer srt env fuel server db_ok prev)"
      using o by (intro syncFromServer_ordered(2) [where srt = srt]) simp_all
  qed
  have fresh: "snd (sortTransactions_heap srt env heap items) = length heap \<and>
      fst (sortTransactions_heap srt env heap items) ! length heap =
        sortTransactions srt env (heap ! items) \<and>
      (\<forall>r < length heap. fst (sortTransactions_heap srt env heap items) ! r = heap ! r)"
    if "items < length heap"
    using sortTransactions_heap_fresh [OF that] by blast
  have keys: "cache_sorted env xs = sorted (map (time_key env) xs)" if "dates_valid env xs"
    using that by (rule cache_sorted_sorted_keys)
  show ?thesis
  proof (intro conjI)
    show "cache_inv env []" by (rule cache_inv_Nil)
    show "one_entry_per_id prev \<longrightarrow> one_entry_per_id (removeTransactions db_ok ids prev)"
      by (rule removal)
    show "cache_sorted env prev \<longrightarrow> cache_sorted env (removeTransactions db_ok ids prev)"
      by (rule removal)
    show "dates_valid env prev \<longrightarrow> dates_valid env (removeTransactions db_ok ids prev)"
      by (rule removal)
  qed (intro impI, rule ids order fresh keys, assumption)+
qed

text \<open>
  The invariant on a cache of two entries, one of them without a date, with the insertion
  sort as the host's sort: a removal, an upsert of a new and of a cached id, a change of
  date, a load and a synchronisation, with the order of ids each leaves, and the sort of
  an array in a store of one array.
\<close>

theorem offline_cache_invariant_witness:
  "sort_permutes utc_env js_sort \<and> sort_orders utc_env js_sort
   \<and> cache_inv utc_env sample_cache \<and> dates_valid utc_env sample_cache
   \<and> sorted (map (time_key utc_env) sample_cache)
   \<and> cache_inv utc_env (removeTransactions True [1] sample_cache)
   \<and> dates_valid utc_env (upsert_list sample_upsert)
   \<and> cache_inv utc_env (upsertTransactions js_sort utc_env True sample_upsert sample_cache)
   \<and> map tx_id (upsertTransactions js_sort utc_env True sample_upsert sample_cache) = [2, 3, 1]
   \<and> list_all update_keeps_id sample_updates \<and> list_all (update_dates_ok utc_env) sample_updates
   \<and> cache_inv utc_env (updateTransactionFields js_sort utc_env True sample_updates sample_cache)
   \<and> map tx_id (updateTransactionFields js_sort utc_env True sample_updates sample_cache) = [2, 1]
   \<and> cache_inv utc_env (loadTransactions js_sort utc_env (Some (rev sample_cache)))
   \<and> fetch_pages 2 small_server 1 [] = Fetched (rev sample_cache)
   \<and> cache_inv utc_env (syncFromServer js_sort utc_env 2 small_server True sample_cache)
   \<and> snd (sortTransactions_heap js_sort utc_env [rev sample_cache] 0) = 1
   \<and> fst (sortTransactions_heap js_sort utc_env [rev sample_cache] 0) ! 0 = rev sample_cache
   \<and> fst (sortTransactions_heap js_sort utc_env [rev sample_cache] 0) ! 1 = sample_cache"
proof -
  note inv = offline_cache_invariant [where env = utc_env and srt = js_sort
      and prev = sample_cache and db_ok = True
      and ids = "[1]" and transactions = sample_upsert and updates = sample_updates
      and db_items = "Some (rev sample_cache)" and fuel = 2 and server = small_server
      and heap = "[rev sample_cache]" and items = 0 and xs = sample_cache]
  have p: "sort_permutes utc_env js_sort" by (rule js_sort_permutes)
  have o: "sort_orders utc_env js_sort" by (rule js_sort_orders)
  have c: "cache_inv utc_env sample_cache" by code_simp
  then have ci: "one_entry_per_id sample_cache" and cs: "cache_sorted utc_env sample_cache"
    by (simp_all add: cache_inv_def)
  have d: "dates_valid utc_env sample_cache" by code_simp
  have u: "dates_valid utc_env (upsert_list sample_upsert)" by code_simp
  have k: "list_all update_keeps_id sample_updates" by code_simp
  have uo: "list_all (update_dates_ok utc_env) sample_updates" by code_simp
  have li: "case Some (rev sample_cache) of Some stored \<Rightarrow> one_entry_per_id stored | None \<Rightarrow> True"
    by code_simp
  have lv: "case Some (rev sample_cache) of Some stored \<Rightarrow> dates_valid utc_env stored | None \<Rightarrow> True"
    by code_simp
  have f: "fetch_pages 2 small_server 1 [] = Fetched (rev sample_cache)" by code_simp
  have si: "case fetch_pages 2 small_server 1 [] of
      Fetched fetched \<Rightarrow> one_entry_per_id fetched | _ \<Rightarrow> True" by code_simp
  have sv: "case fetch_pages 2 small_server 1 [] of
      Fetched fetched \<Rightarrow> dates_valid utc_env fetched | _ \<Rightarrow> True" by code_simp
  have h: "(0::nat) < length [rev sample_cache]" by simp
  have v1: "map tx_id (upsertTransactions js_sort utc_env True sample_upsert sample_cache) = [2, 3, 1]"
    by code_simp
  have v2: "map tx_id (updateTransactionFields js_sort utc_env True sample_updates sample_cache) = [2, 1]"
    by code_simp
  have v3: "sortTransactions js_sort utc_env ([rev sample_cache] ! 0) = sample_cache" by code_simp
  note c2 = inv [THEN conjunct2]
  note c3 = c2 [THEN conjunct2]
  note c4 = c3 [THEN conjunct2]
  note c5 = c4 [THEN conjunct2]
  note c6 = c5 [THEN conjunct2]
  note c7 = c6 [THEN conjunct2]
  note removal_ids = c2 [THEN conjunct1, THEN mp, OF ci]
  note removal_order = c3 [THEN conjunct1, THEN mp, OF cs]
  note ids = c5 [THEN conjunct1, THEN mp, OF p]
  note order = c6 [THEN conjunct1, THEN mp, OF o]
  note fresh = c7 [THEN conjunct1, THEN mp, OF h]
  note keys = c7 [THEN conjunct2, THEN mp, OF d]
  note ids2 = ids [THEN conjunct2]
  note ids3 = ids2 [THEN conjunct2]
  note order2 = order [THEN conjunct2]
  note order3 = order2 [THEN conjunct2]
  from keys cs have r0: "sorted (map (time_key utc_env) sample_cache)" by simp
  from removal_ids removal_order
  have r1: "cache_inv utc_env (removeTransactions True [1] sample_cache)"
    by (simp add: cache_inv_def)
  from ids [THEN conjunct1, THEN mp, OF ci] order [THEN conjunct1] cs d u
  have r2: "cache_inv utc_env (upsertTransactions js_sort utc_env True sample_upsert sample_cache)"
    by (simp add: cache_inv_def)
  from ids2 [THEN conjunct1] order2 [THEN conjunct1] ci cs d k uo
  have r3: "cache_inv utc_env (updateTransactionFields js_sort utc_env True sample_updates sample_cache)"
    by (simp add: cache_inv_def)
  from ids3 [THEN conjunct1, THEN mp, OF li] order3 [THEN conjunct1, THEN mp, OF lv]
  have r4: "cache_inv utc_env (loadTransactions js_sort utc_env (Some (rev sample_cache)))"
    by (simp add: cache_inv_def)
  from ids3 [THEN conjunct2, THEN mp, OF conjI, OF ci si]
    order3 [THEN conjunct2, THEN mp, OF conjI, OF cs conjI, OF d sv]
  have r5: "cache_inv utc_env (syncFromServer js_sort utc_env 2 small_server True sample_cache)"
    by (simp add: cache_inv_def)
  from fresh
  have r6: "snd (sortTransactions_heap js_sort utc_env [rev sample_cache] 0) = length [rev sample_cache]"
    and r7: "fst (sortTransactions_heap js_sort utc_env [rev sample_cache] 0) ! length [rev sample_cache] =
      sortTransactions js_sort utc_env ([rev sample_cache] ! 0)"
    and r8: "\<forall>r < length [rev sample_cache].
      fst (sortTransactions_heap js_sort utc_env [rev sample_cache] 0) ! r = [rev sample_cache] ! r"
    by blast+
  from r6 have r6': "snd (sortTransactions_heap js_sort utc_env [rev sample_cache] 0) = 1" by simp
  from r7 v3 have r7': "fst (sortTransactions_heap js_sort utc_env [rev sample_cache] 0) ! 1 = sample_cache"
    by simp
  from r8 have r8': "fst (sortTransactions_heap js_sort utc_env [rev sample_cache] 0) ! 0 = rev sample_cache"
    by simp
  show ?thesis
    using p o c d r0 r1 u r2 v1 k uo r3 v2 r4 f r5 r6' r8' r7' by (intro conjI)
qed

text \<open>
  The claim as first stated holds for every update and every input. It fails on a sorted
  cache with distinct ids: an update whose fields assign the id of another entry leaves two
  entries with one id; a synchronisation with \<open>shifting_server\<close> leaves the repeated row
  twice in the cache; and an upserted transaction whose date the host does not parse
  leaves a cache of two entries that is not sorted, in the order the insertion sort gives
  and in the other order as well, so whatever the host's sort does with them.
\<close>

theorem offline_cache_invariant_counterexample:
  "cache_inv utc_env sample_cache
   \<and> \<not> one_entry_per_id
         (updateTransactionFields js_sort utc_env True [\<lparr>u_id = 2, u_fields = [Set_id 1]\<rparr>]
            sample_cache)
   \<and> \<not> one_entry_per_id (syncFromServer js_sort utc_env 2 shifting_server True [])
   \<and> cache_inv utc_env [sample_tx 1 None]
   \<and> \<not> cache_sorted utc_env
         (upsertTransactions js_sort utc_env True (One unparsed_tx) [sample_tx 1 None])
   \<and> \<not> cache_sorted utc_env [sample_tx 1 None, unparsed_tx]
   \<and> \<not> cache_sorted utc_env [unparsed_tx, sample_tx 1 None]"
proof (intro conjI)
  show "cache_inv utc_env sample_cache" by code_simp
  show "\<not> one_entry_per_id
    (updateTransactionFields js_sort utc_env True [\<lparr>u_id = 2, u_fields = [Set_id 1]\<rparr>]
       sample_cache)"
    by code_simp
  have "syncFromServer js_sort utc_env 2 shifting_server True [] =
      sortTransactions js_sort utc_env (first_page @ [sample_tx 1000 None])"
    unfolding syncFromServer_unfold fetch_pages_shifting_server by simp
  then show "\<not> one_entry_per_id (syncFromServer js_sort utc_env 2 shifting_server True [])"
    using first_page_repeats_id
    by (simp add: one_entry_per_id_sortTransactions [OF js_sort_permutes])
  show "cache_inv utc_env [sample_tx 1 None]" by code_simp
  show "\<not> cache_sorted utc_env
    (upsertTransactions js_sort utc_env True (One unparsed_tx) [sample_tx 1 None])"
    by code_simp
  show "\<not> cache_sorted utc_env [sample_tx 1 None, unparsed_tx]" by code_simp
  show "\<not> cache_sorted utc_env [unparsed_tx, sample_tx 1 None]" by code_simp
qed

section \<open>The operator mapper (backend/parsers/operator_mapper.py)\<close>

text \<open>
  The mapper is part of the backend; its Python file is not in the source tree examined
  here, which holds the audit report and the notes on its tests. This section follows the
  specification of the component, section 4.5.
\<close>

text \<open>
  Modelled from the spec: the row type \<open>OperatorMapping\<close> of the reference table
  (models.py is missing), with the fields the data model lists. The flag \<open>is_p2p\<close> is
  \<open>is_p2p_flag\<close> here.
\<close>

record OperatorMapping =
  operator_pattern :: string
  application_name :: string
  is_p2p_flag :: bool
  priority :: int
  is_active :: bool

text \<open>
  Modelled from the spec: the result of \<open>resolve\<close> (operator_mapper.py is missing), an
  application name with its P2P flag, or \<open>Unmapped\<close>.
\<close>

datatype resolution = Unmapped | Resolved string bool

text \<open>
  Modelled from the spec: the substring match of a pattern against the raw operator string
  (operator_mapper.py is missing): the pattern occurs in the string as a contiguous run of
  characters, compared as they are.
\<close>

fun starts_with :: "string \<Rightarrow> string \<Rightarrow> bool" where
  "starts_with [] s = True"
| "starts_with (p # ps) [] = False"
| "starts_with (p # ps) (c # cs) = (p = c \<and> starts_with ps cs)"

fun contains_substring :: "string \<Rightarrow> string \<Rightarrow> bool" where
  "contains_substring p [] = (p = [])"
| "contains_substring p (c # cs) = (starts_with p (c # cs) \<or> contains_substring p cs)"

text \<open>
  Modelled from the spec: the tie-break between matching rows (operator_mapper.py is
  missing): the higher priority first, at equal priority the longer pattern, at equal
  length the pattern that comes first in lexical order (by character code).
\<close>

fun lexical_less :: "string \<Rightarrow> string \<Rightarrow> bool" where
  "lexical_less [] [] = False"
| "lexical_less [] (y # ys) = True"
| "lexical_less (x # xs) [] = False"
| "lexical_less (x # xs) (y # ys) =
     ((of_char x :: nat) < of_char y \<or> (x = y \<and> lexical_less xs ys))"

definition outranks :: "OperatorMapping \<Rightarrow> OperatorMapping \<Rightarrow> bool" where
  "outranks a b =
     (priority b < priority a \<or>
      (priority a = priority b \<and>
        (length (operator_pattern b) < length (operator_pattern a) \<or>
         (length (operator_pattern a) = length (operator_pattern b) \<and>
          lexical_less (operator_pattern a) (operator_pattern b)))))"

text \<open>
  Modelled from the spec: the choice among the matching rows (operator_mapper.py is
  missing): the row that outranks the others, and the earlier one of two rows that do not
  outrank each other.
\<close>

fun pick_best :: "OperatorMapping \<Rightarrow> OperatorMapping list \<Rightarrow> OperatorMapping" where
  "pick_best best [] = best"
| "pick_best best (r # rs) = pick_best (if outranks r best then r else best) rs"

text \<open>
  Modelled from the spec: \<open>resolve\<close> (operator_mapper.py is missing). Only active rows
  take part; an exact match of the pattern wins over substring matches; without an exact
  match the best substring match is taken; without any match the operator is unmapped.
\<close>

definition resolved_to :: "OperatorMapping \<Rightarrow> resolution" where
  "resolved_to r = Resolved (application_name r) (is_p2p_flag r)"

definition resolve :: "string \<Rightarrow> OperatorMapping list \<Rightarrow> resolution" where
  "resolve raw table =
     (let active_rows = filter is_active table;
          exact_rows = filter (\<lambda>r. operator_pattern r = raw) active_rows;
          substring_rows =
            filter (\<lambda>r. contains_substring (operator_pattern r) raw) active_rows
      in case exact_rows of
           e # es \<Rightarrow> resolved_to (pick_best e es)
         | [] \<Rightarrow>
             (case substring_rows of
                s # ss \<Rightarrow> resolved_to (pick_best s ss)
              | [] \<Rightarrow> Unmapped))"

text \<open>
  A table with the two patterns of the specification's example, an inactive row and a row
  for a second pattern.
\<close>

definition click_table :: "OperatorMapping list" where
  "click_table =
     [\<lparr>operator_pattern = ''CLI'', application_name = ''Command Line'', is_p2p_flag = False,
        priority = 100, is_active = True\<rparr>,
      \<lparr>operator_pattern = ''CLICK'', application_name = ''Click'', is_p2p_flag = False,
        priority = 1, is_active = True\<rparr>,
      \<lparr>operator_pattern = ''CLICK UZ'', application_name = ''Retired'', is_p2p_flag = True,
        priority = 500, is_active = False\<rparr>,
      \<lparr>operator_pattern = ''UZ'', application_name = ''Uz Pay'', is_p2p_flag = True,
        priority = 7, is_active = True\<rparr>]"

subsection \<open>Properties of the choice\<close>

lemma pick_best_member: "pick_best b rs \<in> set (b # rs)"
  by (induction rs arbitrary: b) auto

lemma outranks_priority: "outranks a b \<Longrightarrow> priority b \<le> priority a"
  by (auto simp: outranks_def)

lemma pick_best_priority_acc: "priority b \<le> priority (pick_best b rs)"
proof (induction rs arbitrary: b)
  case Nil
  then show ?case by simp
next
  case (Cons r rs)
  show ?case
  proof (cases "outranks r b")
    case True
    then have "priority b \<le> priority r" by (rule outranks_priority)
    also have "priority r \<le> priority (pick_best r rs)" by (rule Cons.IH)
    finally show ?thesis using True by simp
  next
    case False
    then show ?thesis using Cons.IH [of b] by simp
  qed
qed

lemma pick_best_priority:
  assumes "r \<in> set (b # rs)"
  shows "priority r \<le> priority (pick_best b rs)"
  using assms
proof (induction rs arbitrary: b)
  case Nil
  then show ?case by simp
next
  case (Cons x rs)
  let ?b = "if outranks x b then x else b"
  have step: "pick_best b (x # rs) = pick_best ?b rs" by simp
  have bb: "priority b \<le> priority ?b" by (simp add: outranks_priority)
  have xb: "priority x \<le> priority ?b" by (auto simp: outranks_def)
  from Cons.prems consider "r = b" | "r = x" | "r \<in> set rs" by auto
  then show ?case
  proof cases
    case 1
    have "priority b \<le> priority (pick_best ?b rs)"
      using bb pick_best_priority_acc [of ?b rs] by (rule order_trans)
    then show ?thesis unfolding step 1 .
  next
    case 2
    have "priority x \<le> priority (pick_best ?b rs)"
      using xb pick_best_priority_acc [of ?b rs] by (rule order_trans)
    then show ?thesis unfolding step 2 .
  next
    case 3
    then have "r \<in> set (?b # rs)" by simp
    then show ?thesis unfolding step by (rule Cons.IH)
  qed
qed

lemma resolve_active_only: "resolve raw table = resolve raw (filter is_active table)"
  by (simp add: resolve_def)

lemma resolve_exact:
  assumes "r0 \<in> set table" "is_active r0" "operator_pattern r0 = raw"
  shows "\<exists>r \<in> set table. is_active r \<and> operator_pattern r = raw \<and> resolve raw table = resolved_to r"
proof -
  let ?exact = "filter (\<lambda>r. operator_pattern r = raw) (filter is_active table)"
  from assms have "r0 \<in> set ?exact" by simp
  then obtain e es where ex: "?exact = e # es"
    by (metis empty_iff list.set(1) neq_Nil_conv)
  have "pick_best e es \<in> set ?exact" unfolding ex by (rule pick_best_member)
  moreover have "resolve raw table = resolved_to (pick_best e es)"
    using ex by (simp add: resolve_def)
  ultimately show ?thesis by auto
qed

lemma resolve_substring:
  assumes "\<forall>r \<in> set table. is_active r \<longrightarrow> operator_pattern r \<noteq> raw"
    "r0 \<in> set table" "is_active r0" "contains_substring (operator_pattern r0) raw"
  shows "\<exists>r \<in> set table. is_active r \<and> contains_substring (operator_pattern r) raw \<and>
      resolve raw table = resolved_to r \<and>
      (\<forall>r' \<in> set table. is_active r' \<and> contains_substring (operator_pattern r') raw \<longrightarrow>
         priority r' \<le> priority r)"
proof -
  let ?active = "filter is_active table"
  let ?partial = "filter (\<lambda>r. contains_substring (operator_pattern r) raw) ?active"
  have none: "filter (\<lambda>r. operator_pattern r = raw) ?active = []"
    using assms(1) by (auto simp: filter_empty_conv)
  from assms have "r0 \<in> set ?partial" by simp
  then obtain s ss where p: "?partial = s # ss"
    by (metis empty_iff list.set(1) neq_Nil_conv)
  let ?best = "pick_best s ss"
  have mem: "?best \<in> set ?partial" unfolding p by (rule pick_best_member)
  have res: "resolve raw table = resolved_to ?best"
    using none p by (simp add: resolve_def)
  have top: "priority r' \<le> priority ?best"
    if "r' \<in> set table" "is_active r'" "contains_substring (operator_pattern r') raw" for r'
  proof -
    from that have "r' \<in> set ?partial" by simp
    then have "r' \<in> set (s # ss)" unfolding p .
    then show ?thesis by (rule pick_best_priority)
  qed
  from mem res top show ?thesis by auto
qed

lemma resolve_unmapped:
  assumes "\<forall>r \<in> set table. is_active r \<longrightarrow>
      operator_pattern r \<noteq> raw \<and> \<not> contains_substring (operator_pattern r) raw"
  shows "resolve raw table = Unmapped"
proof -
  have "filter (\<lambda>r. operator_pattern r = raw) (filter is_active table) = []"
    using assms by (auto simp: filter_empty_conv)
  moreover have "filter (\<lambda>r. contains_substring (operator_pattern r) raw) (filter is_active table) = []"
    using assms by (auto simp: filter_empty_conv)
  ultimately show ?thesis by (simp add: resolve_def)
qed

subsection \<open>Precedence\<close>

text \<open>
  Claim C5 (operator mapper precedence). For every raw operator string and every table:
  the resolution is that of the active rows alone; if an active row has the string as its
  pattern, the result is such a row, whatever the priorities of the rows that match a
  substring; otherwise, if active rows match a substring, the result is one of them and
  no matching active row has a higher priority; and with no matching active row the
  operator is unmapped.
\<close>

theorem resolve_precedence:
  "resolve raw table = resolve raw (filter is_active table)
   \<and> ((\<exists>r0 \<in> set table. is_active r0 \<and> operator_pattern r0 = raw) \<longrightarrow>
        (\<exists>r \<in> set table. is_active r \<and> operator_pattern r = raw \<and>
           resolve raw table = resolved_to r))
   \<and> ((\<forall>r \<in> set table. is_active r \<longrightarrow> operator_pattern r \<noteq> raw) \<and>
       (\<exists>r0 \<in> set table. is_active r0 \<and> contains_substring (operator_pattern r0) raw) \<longrightarrow>
        (\<exists>r \<in> set table. is_active r \<and> contains_substring (operator_pattern r) raw \<and>
           resolve raw table = resolved_to r \<and>
           (\<forall>r' \<in> set table. is_active r' \<and> contains_substring (operator_pattern r') raw \<longrightarrow>
              priority r' \<le> priority r)))
   \<and> ((\<forall>r \<in> set table. is_active r \<longrightarrow>
          operator_pattern r \<noteq> raw \<and> \<not> contains_substring (operator_pattern r) raw) \<longrightarrow>
        resolve raw table = Unmapped)"
proof (intro conjI impI)
  show "resolve raw table = resolve raw (filter is_active table)"
    by (rule resolve_active_only)
next
  assume "\<exists>r0 \<in> set table. is_active r0 \<and> operator_pattern r0 = raw"
  then obtain r0 where "r0 \<in> set table" "is_active r0" "operator_pattern r0 = raw" by blast
  then show "\<exists>r \<in> set table. is_active r \<and> operator_pattern r = raw \<and>
      resolve raw table = resolved_to r"
    by (rule resolve_exact)
next
  assume a: "(\<forall>r \<in> set table. is_active r \<longrightarrow> operator_pattern r \<noteq> raw) \<and>
    (\<exists>r0 \<in> set table. is_active r0 \<and> contains_substring (operator_pattern r0) raw)"
  then obtain r0 where r0: "r0 \<in> set table" "is_active r0"
      "contains_substring (operator_pattern r0) raw" by blast
  from a have "\<forall>r \<in> set table. is_active r \<longrightarrow> operator_pattern r \<noteq> raw" by blast
  then show "\<exists>r \<in> set table. is_active r \<and> contains_substring (operator_pattern r) raw \<and>
      resolve raw table = resolved_to r \<and>
      (\<forall>r' \<in> set table. is_active r' \<and> contains_substring (operator_pattern r') raw \<longrightarrow>
         priority r' \<le> priority r)"
    using r0 by (rule resolve_substring)
next
  assume "\<forall>r \<in> set table. is_active r \<longrightarrow>
    operator_pattern r \<noteq> raw \<and> \<not> contains_substring (operator_pattern r) raw"
  then show "resolve raw table = Unmapped"
    by (rule resolve_unmapped)
qed

text \<open>
  The example of the specification: the exact row \<open>CLICK\<close> of priority 1 wins over the
  substring row \<open>CLI\<close> of priority 100. For \<open>CLICK UZ\<close> the only row with that pattern
  is inactive, and the substring row of the highest priority is taken.
\<close>

theorem resolve_precedence_witness:
  "resolve ''CLICK'' click_table = Resolved ''Click'' False
   \<and> resolve ''CLICK UZ'' click_table = Resolved ''Command Line'' False
   \<and> resolve ''CLICK UZ'' click_table = resolve ''CLICK UZ'' (filter is_active click_table)
   \<and> resolve ''HUMO'' click_table = Unmapped"
proof -
  note exact = resolve_precedence [of "''CLICK''" click_table]
  note sub = resolve_precedence [of "''CLICK UZ''" click_table]
  note none = resolve_precedence [of "''HUMO''" click_table]
  have h1: "\<exists>r0 \<in> set click_table. is_active r0 \<and> operator_pattern r0 = ''CLICK''"
    by code_simp
  have h2: "\<forall>r \<in> set click_table. is_active r \<longrightarrow> operator_pattern r \<noteq> ''CLICK UZ''"
    by code_simp
  have h3: "\<exists>r0 \<in> set click_table. is_active r0 \<and> contains_substring (operator_pattern r0) ''CLICK UZ''"
    by code_simp
  have h4: "\<forall>r \<in> set click_table. is_active r \<longrightarrow>
      operator_pattern r \<noteq> ''HUMO'' \<and> \<not> contains_substring (operator_pattern r) ''HUMO''"
    by code_simp
  let ?cli = "\<lparr>operator_pattern = ''CLI'', application_name = ''Command Line'', is_p2p_flag = False,
      priority = 100, is_active = True\<rparr>"
  from exact h1 obtain r where r: "r \<in> set click_table" "is_active r" "operator_pattern r = ''CLICK''"
      "resolve ''CLICK'' click_table = resolved_to r" by blast
  from r(1,3) have "resolved_to r = Resolved ''Click'' False"
    by (auto simp: click_table_def resolved_to_def)
  with r(4) have w1: "resolve ''CLICK'' click_table = Resolved ''Click'' False" by simp
  from sub h2 h3 obtain s where s: "s \<in> set click_table" "is_active s"
      "resolve ''CLICK UZ'' click_table = resolved_to s"
      "\<forall>r' \<in> set click_table.
         is_active r' \<and> contains_substring (operator_pattern r') ''CLICK UZ'' \<longrightarrow>
         priority r' \<le> priority s" by blast
  have "?cli \<in> set click_table" "is_active ?cli" "contains_substring (operator_pattern ?cli) ''CLICK UZ''"
    by (simp_all add: click_table_def)
  with s(4) have "priority ?cli \<le> priority s" by blast
  with s(1,2) have "resolved_to s = Resolved ''Command Line'' False"
    by (auto simp: click_table_def resolved_to_def)
  with s(3) have w2: "resolve ''CLICK UZ'' click_table = Resolved ''Command Line'' False" by simp
  from sub have w3: "resolve ''CLICK UZ'' click_table = resolve ''CLICK UZ'' (filter is_active click_table)"
    by blast
  from none h4 have w4: "resolve ''HUMO'' click_table = Unmapped" by blast
  from w1 w2 w3 w4 show ?thesis by (intro conjI)
qed

end
